theory Spec2Isabelle
  imports Main "HOL-Library.AList"
begin

section \<open>Values and errors\<close>

text \<open>
  The payload type of \<^verbatim>\<open>hijacknet/__init__.py\<close>:
  \<^verbatim>\<open>Jsonable = Union[dict[str, 'Jsonable'], list['Jsonable'], str, int, float, bool, None]\<close>.
  A Python \<^verbatim>\<open>dict\<close> keeps its insertion order, so it is an association list here (its keys
  distinct, see \<open>wf_json\<close>). Python's \<^verbatim>\<open>None\<close> is \<open>JNone\<close>: a function returning
  \<^verbatim>\<open>Optional[Jsonable]\<close> returns a \<open>Jsonable\<close>, and its \<^verbatim>\<open>None\<close> is the same value as a decoded
  \<^verbatim>\<open>null\<close>. Numbers are the integers; \<^verbatim>\<open>float\<close> has no constructor. A \<^verbatim>\<open>str\<close> is a \<open>string\<close>, its
  characters the code points below 256.
\<close>

datatype Jsonable =
    JNone
  | JBool bool
  | JInt int
  | JStr string
  | JList "Jsonable list"
  | JDict "(string \<times> Jsonable) list"

text \<open>
  The exceptions the code can raise. \<open>PyException\<close> carries the message of a plain
  \<^verbatim>\<open>raise Exception("...")\<close>; the others are raised by the interpreter and the standard library.
  \<open>OutsideModel\<close> is no Python exception: it marks a text in which the decoder meets
  what is no value of \<open>Jsonable\<close> above (a number with a fraction or an exponent, \<^verbatim>\<open>NaN\<close>,
  \<^verbatim>\<open>Infinity\<close>, a code point above 255). What Python returns or raises on such a text is
  not said here.
\<close>

datatype error =
    PyException string
  | KeyError
  | TypeError
  | JSONDecodeError
  | ConnectionResetError
  | OutsideModel

text \<open>\<^verbatim>\<open>obj[key]\<close> for a string key: only a dict can be subscripted by a string.\<close>

fun getitem :: "Jsonable \<Rightarrow> string \<Rightarrow> error + Jsonable" where
  "getitem (JDict kvs) key = (case map_of kvs key of None \<Rightarrow> Inl KeyError | Some v \<Rightarrow> Inr v)"
| "getitem _ key = Inl TypeError"

text \<open>
  The key a value is stored under in a \<^verbatim>\<open>dict\<close>. Lists and dicts are unhashable
  (\<^verbatim>\<open>TypeError\<close>); \<^verbatim>\<open>True\<close> and \<^verbatim>\<open>1\<close>, \<^verbatim>\<open>False\<close> and \<^verbatim>\<open>0\<close> are equal with equal hashes, so they are
  one key.
\<close>

datatype pykey = KNone | KInt int | KStr string

fun hashable :: "Jsonable \<Rightarrow> error + pykey" where
  "hashable JNone = Inr KNone"
| "hashable (JBool b) = Inr (KInt (if b then 1 else 0))"
| "hashable (JInt i) = Inr (KInt i)"
| "hashable (JStr s) = Inr (KStr s)"
| "hashable (JList _) = Inl TypeError"
| "hashable (JDict _) = Inl TypeError"

text \<open>Python's \<^verbatim>\<open>==\<close> on these values: dicts compare as mappings, whatever their order.\<close>

function (sequential) py_eq :: "Jsonable \<Rightarrow> Jsonable \<Rightarrow> bool" where
  "py_eq JNone JNone = True"
| "py_eq (JBool a) (JBool b) = (a = b)"
| "py_eq (JBool a) (JInt b) = (b = (if a then 1 else 0))"
| "py_eq (JInt a) (JBool b) = (a = (if b then 1 else 0))"
| "py_eq (JInt a) (JInt b) = (a = b)"
| "py_eq (JStr a) (JStr b) = (a = b)"
| "py_eq (JList xs) (JList ys) =
     (length xs = length ys \<and> list_all (\<lambda>(x, y). py_eq x y) (zip xs ys))"
| "py_eq (JDict a) (JDict b) =
     (length a = length b \<and>
      list_all (\<lambda>(k, v). case map_of b k of None \<Rightarrow> False | Some w \<Rightarrow> py_eq v w) a)"
| "py_eq _ _ = False"
  by pat_completeness auto

lemma size_json_elem: "x \<in> set xs \<Longrightarrow> size x < Suc (size_list size xs)"
  by (induction xs) auto

lemma size_json_entry:
  "(k, v) \<in> set kvs \<Longrightarrow> size v < Suc (size_list (size_prod (\<lambda>x. 0) size) kvs)"
  by (induction kvs) auto

termination py_eq
proof (relation "measure (\<lambda>(a, b). size a)")
  show "wf (measure (\<lambda>(a, b). size a))" by simp
next
  fix xs ys :: "Jsonable list" and z x y
  assume "z \<in> set (zip xs ys)" "(x, y) = z"
  then have "x \<in> set xs" by (auto dest: set_zip_leftD)
  then show "((x, y), JList xs, JList ys) \<in> measure (\<lambda>(a, b). size a)"
    using size_json_elem [of x xs] by simp
next
  fix a b :: "(string \<times> Jsonable) list" and z k v w
  assume "z \<in> set a" "(k, v) = z" "map_of b k = Some w"
  then have "(k, v) \<in> set a" by simp
  then show "((v, w), JDict a, JDict b) \<in> measure (\<lambda>(a, b). size a)"
    using size_json_entry [of k v a] by simp
qed

section \<open>The codec: \<^verbatim>\<open>json.dumps\<close> and \<^verbatim>\<open>json.loads\<close>\<close>

text \<open>
  The two functions of Python's standard \<^verbatim>\<open>json\<close> module that \<^verbatim>\<open>send_message\<close> and
  \<^verbatim>\<open>read_message\<close> call. They are no code of the repository; they are written out here as
  the module defines them, on the values of \<open>Jsonable\<close>.

  The limits of the interpreter (the depth of recursion, the number of digits of an
  integer that is converted to text) are not part of it.

  \<^verbatim>\<open>json.dumps(msg, separators=(',', ':'))\<close>: no white space, \<^verbatim>\<open>ensure_ascii\<close> left at its
  default, so every character outside the printable ASCII range, the quote and the
  backslash are escaped.
\<close>

definition digit_char :: "nat \<Rightarrow> char" where
  "digit_char d = char_of (48 + d)"

function show_nat :: "nat \<Rightarrow> string" where
  "show_nat n = (if n < 10 then [digit_char n] else show_nat (n div 10) @ [digit_char (n mod 10)])"
  by pat_completeness auto
termination show_nat
  by (relation "measure id") auto

declare show_nat.simps [simp del]

definition show_int :: "int \<Rightarrow> string" where
  "show_int i = (if i < 0 then CHR ''-'' # show_nat (nat (- i)) else show_nat (nat i))"

definition hex_char :: "nat \<Rightarrow> char" where
  "hex_char d = (if d < 10 then char_of (48 + d) else char_of (87 + d))"

definition escape_char :: "char \<Rightarrow> string" where
  "escape_char c =
     (if c = CHR 0x22 then [CHR 0x5C, CHR 0x22]
      else if c = CHR 0x5C then [CHR 0x5C, CHR 0x5C]
      else if c = CHR 0x0A then [CHR 0x5C, CHR ''n'']
      else if c = CHR 0x0D then [CHR 0x5C, CHR ''r'']
      else if c = CHR 0x09 then [CHR 0x5C, CHR ''t'']
      else if c = CHR 0x08 then [CHR 0x5C, CHR ''b'']
      else if c = CHR 0x0C then [CHR 0x5C, CHR ''f'']
      else if 0x20 \<le> (of_char c :: nat) \<and> (of_char c :: nat) \<le> 0x7E then [c]
      else [CHR 0x5C, CHR ''u'', CHR ''0'', CHR ''0'',
            hex_char ((of_char c :: nat) div 16), hex_char ((of_char c :: nat) mod 16)])"

definition encode_basestring_ascii :: "string \<Rightarrow> string" where
  "encode_basestring_ascii s = CHR 0x22 # concat (map escape_char s) @ [CHR 0x22]"

fun dumps :: "Jsonable \<Rightarrow> string"
  and dumps_elems :: "Jsonable list \<Rightarrow> string"
  and dumps_items :: "(string \<times> Jsonable) list \<Rightarrow> string" where
  "dumps JNone = ''null''"
| "dumps (JBool b) = (if b then ''true'' else ''false'')"
| "dumps (JInt i) = show_int i"
| "dumps (JStr s) = encode_basestring_ascii s"
| "dumps (JList xs) = CHR ''['' # dumps_elems xs @ '']''"
| "dumps (JDict kvs) = CHR ''{'' # dumps_items kvs @ ''}''"
| "dumps_elems [] = []"
| "dumps_elems [x] = dumps x"
| "dumps_elems (x # y # ys) = dumps x @ CHR '','' # dumps_elems (y # ys)"
| "dumps_items [] = []"
| "dumps_items [(k, v)] = encode_basestring_ascii k @ CHR '':'' # dumps v"
| "dumps_items ((k, v) # p # ps) =
     encode_basestring_ascii k @ CHR '':'' # dumps v @ CHR '','' # dumps_items (p # ps)"

text \<open>
  \<^verbatim>\<open>json.loads\<close>: white space is blank, tab, line feed and carriage return; a number
  follows \<^verbatim>\<open>(-?(?:0|[1-9]\d*))(\.\d+)?([eE][-+]?\d+)?\<close>; a repeated key of an object keeps
  its last value. \<open>parse_elems\<close> is the loop of \<^verbatim>\<open>JSONArray\<close>, \<open>parse_pairs\<close> the loop of
  \<^verbatim>\<open>JSONObject\<close>. Each loop goes on with a shorter text; the test
  \<open>length \<dots> < length s\<close> before its recursive call states that, and is always true
  (\<open>scan_once_shorter\<close>).
\<close>

definition ws :: "char \<Rightarrow> bool" where
  "ws c = (c = CHR '' '' \<or> c = CHR 0x09 \<or> c = CHR 0x0A \<or> c = CHR 0x0D)"

definition skip_ws :: "string \<Rightarrow> string" where
  "skip_ws s = dropWhile ws s"

definition is_digit :: "char \<Rightarrow> bool" where
  "is_digit c = (48 \<le> (of_char c :: nat) \<and> (of_char c :: nat) \<le> 57)"

definition hex_val :: "char \<Rightarrow> nat option" where
  "hex_val c =
     (let n = (of_char c :: nat) in
      if 48 \<le> n \<and> n \<le> 57 then Some (n - 48)
      else if 97 \<le> n \<and> n \<le> 102 then Some (n - 87)
      else if 65 \<le> n \<and> n \<le> 70 then Some (n - 55)
      else None)"

definition unescape :: "char \<Rightarrow> char option" where
  "unescape e =
     (if e = CHR 0x22 then Some (CHR 0x22)
      else if e = CHR 0x5C then Some (CHR 0x5C)
      else if e = CHR ''/'' then Some (CHR ''/'')
      else if e = CHR ''b'' then Some (CHR 0x08)
      else if e = CHR ''f'' then Some (CHR 0x0C)
      else if e = CHR ''n'' then Some (CHR 0x0A)
      else if e = CHR ''r'' then Some (CHR 0x0D)
      else if e = CHR ''t'' then Some (CHR 0x09)
      else None)"

definition cons_char :: "char \<Rightarrow> error + string \<times> string \<Rightarrow> error + string \<times> string" where
  "cons_char c r = (case r of Inl e \<Rightarrow> Inl e | Inr (s, rest) \<Rightarrow> Inr (c # s, rest))"

fun scanstring :: "string \<Rightarrow> error + string \<times> string" where
  "scanstring [] = Inl JSONDecodeError"
| "scanstring (c # cs) =
     (if c = CHR 0x22 then Inr ([], cs)
      else if c = CHR 0x5C then
        (case cs of
           [] \<Rightarrow> Inl JSONDecodeError
         | e # cs' \<Rightarrow>
             if e = CHR ''u'' then
               (case cs' of
                  x3 # x2 # x1 # x0 # rest \<Rightarrow>
                    (case (hex_val x3, hex_val x2, hex_val x1, hex_val x0) of
                       (Some h3, Some h2, Some h1, Some h0) \<Rightarrow>
                         (let uni = ((h3 * 16 + h2) * 16 + h1) * 16 + h0 in
                          if uni < 256 then cons_char (char_of uni) (scanstring rest)
                          else Inl OutsideModel)
                     | _ \<Rightarrow> Inl JSONDecodeError)
                | _ \<Rightarrow> Inl JSONDecodeError)
             else
               (case unescape e of
                  None \<Rightarrow> Inl JSONDecodeError
                | Some ch \<Rightarrow> cons_char ch (scanstring cs')))
      else if (of_char c :: nat) < 0x20 then Inl JSONDecodeError
      else cons_char c (scanstring cs))"

definition int_of_digits :: "string \<Rightarrow> nat" where
  "int_of_digits ds = foldl (\<lambda>a d. 10 * a + ((of_char d :: nat) - 48)) 0 ds"

definition has_frac :: "string \<Rightarrow> bool" where
  "has_frac rest = (case rest of p # d # _ \<Rightarrow> p = CHR ''.'' \<and> is_digit d | _ \<Rightarrow> False)"

definition has_exp :: "string \<Rightarrow> bool" where
  "has_exp rest =
     (case rest of
        e # d # r \<Rightarrow>
          (e = CHR ''e'' \<or> e = CHR ''E'') \<and>
          (is_digit d \<or>
           ((d = CHR ''+'' \<or> d = CHR ''-'') \<and> (case r of d2 # _ \<Rightarrow> is_digit d2 | [] \<Rightarrow> False)))
      | _ \<Rightarrow> False)"

definition match_number :: "string \<Rightarrow> (error + int \<times> string) option" where
  "match_number s =
     (let neg = (case s of c # _ \<Rightarrow> c = CHR ''-'' | [] \<Rightarrow> False);
          s1 = (if neg then tl s else s)
      in case s1 of
           [] \<Rightarrow> None
         | d # ds \<Rightarrow>
             if \<not> is_digit d then None
             else
               (let integer = (if d = CHR ''0'' then [d] else d # takeWhile is_digit ds);
                    rest = (if d = CHR ''0'' then ds else dropWhile is_digit ds)
                in if has_frac rest \<or> has_exp rest then Some (Inl OutsideModel)
                   else Some (Inr ((if neg then - int (int_of_digits integer)
                                    else int (int_of_digits integer)), rest))))"

definition dict_of_pairs :: "(string \<times> Jsonable) list \<Rightarrow> (string \<times> Jsonable) list" where
  "dict_of_pairs ps = foldl (\<lambda>d (k, v). AList.update k v d) [] ps"

lemma length_skip_ws: "length (skip_ws s) \<le> length s"
  by (simp add: skip_ws_def length_dropWhile_le)

lemma cons_char_Inr:
  "cons_char c r = Inr (str, rest) \<Longrightarrow> \<exists>str'. r = Inr (str', rest) \<and> str = c # str'"
  by (auto simp: cons_char_def split: sum.splits)

lemma scanstring_shorter: "scanstring s = Inr (str, rest) \<Longrightarrow> length rest < length s"
proof (induction s arbitrary: str rest rule: length_induct)
  case (1 s)
  show ?case
  proof (cases s)
    case Nil
    with "1.prems" show ?thesis by simp
  next
    case (Cons c cs)
    have IH: "\<And>ys str rest. scanstring ys = Inr (str, rest) \<Longrightarrow> length ys \<le> length cs
                \<Longrightarrow> length rest < length ys"
      using "1.IH" Cons by simp
    from "1.prems" Cons show ?thesis
      by (auto simp: Let_def split: if_splits list.splits option.splits
               dest!: cons_char_Inr dest: IH)
  qed
qed

lemma skip_ws_Cons_shorter: "skip_ws cs = c1 # r1 \<Longrightarrow> length r1 < length cs"
  using length_skip_ws [of cs] by simp

function scan_once :: "string \<Rightarrow> error + Jsonable \<times> string"
  and parse_elems :: "string \<Rightarrow> error + Jsonable list \<times> string"
  and parse_pairs :: "string \<Rightarrow> error + (string \<times> Jsonable) list \<times> string" where
  "scan_once s =
     (case s of
        [] \<Rightarrow> Inl JSONDecodeError
      | c # cs \<Rightarrow>
          if c = CHR 0x22 then
            (case scanstring cs of Inl e \<Rightarrow> Inl e | Inr (str, rest) \<Rightarrow> Inr (JStr str, rest))
          else if c = CHR ''{'' then
            (case skip_ws cs of
               [] \<Rightarrow> Inl JSONDecodeError
             | c1 # r1 \<Rightarrow>
                 if c1 = CHR ''}'' then Inr (JDict [], r1)
                 else if c1 = CHR 0x22 then
                   (case parse_pairs r1 of
                      Inl e \<Rightarrow> Inl e
                    | Inr (ps, rest) \<Rightarrow> Inr (JDict (dict_of_pairs ps), rest))
                 else Inl JSONDecodeError)
          else if c = CHR ''['' then
            (case skip_ws cs of
               [] \<Rightarrow> Inl JSONDecodeError
             | c1 # r1 \<Rightarrow>
                 if c1 = CHR '']'' then Inr (JList [], r1)
                 else
                   (case parse_elems (c1 # r1) of
                      Inl e \<Rightarrow> Inl e
                    | Inr (vs, rest) \<Rightarrow> Inr (JList vs, rest)))
          else if c = CHR ''n'' \<and> take 4 s = ''null'' then Inr (JNone, drop 4 s)
          else if c = CHR ''t'' \<and> take 4 s = ''true'' then Inr (JBool True, drop 4 s)
          else if c = CHR ''f'' \<and> take 5 s = ''false'' then Inr (JBool False, drop 5 s)
          else
            (case match_number s of
               Some (Inl e) \<Rightarrow> Inl e
             | Some (Inr (i, rest)) \<Rightarrow> Inr (JInt i, rest)
             | None \<Rightarrow>
                 if c = CHR ''N'' \<and> take 3 s = ''NaN'' then Inl OutsideModel
                 else if c = CHR ''I'' \<and> take 8 s = ''Infinity'' then Inl OutsideModel
                 else if c = CHR ''-'' \<and> take 9 s = ''-Infinity'' then Inl OutsideModel
                 else Inl JSONDecodeError))"
| "parse_elems s =
     (case scan_once s of
        Inl e \<Rightarrow> Inl e
      | Inr (v, rest) \<Rightarrow>
          (case skip_ws rest of
             [] \<Rightarrow> Inl JSONDecodeError
           | c # r \<Rightarrow>
               if c = CHR '']'' then Inr ([v], r)
               else if c \<noteq> CHR '','' then Inl JSONDecodeError
               else if length (skip_ws r) < length s then
                 (case parse_elems (skip_ws r) of
                    Inl e \<Rightarrow> Inl e
                  | Inr (vs, rest') \<Rightarrow> Inr (v # vs, rest'))
               else Inl JSONDecodeError))"
| "parse_pairs s =
     (case scanstring s of
        Inl e \<Rightarrow> Inl e
      | Inr (key, r0) \<Rightarrow>
          (case skip_ws r0 of
             [] \<Rightarrow> Inl JSONDecodeError
           | c # r1 \<Rightarrow>
               if c \<noteq> CHR '':'' then Inl JSONDecodeError
               else
                 (case scan_once (skip_ws r1) of
                    Inl e \<Rightarrow> Inl e
                  | Inr (v, r2) \<Rightarrow>
                      (case skip_ws r2 of
                         [] \<Rightarrow> Inl JSONDecodeError
                       | c2 # r3 \<Rightarrow>
                           if c2 = CHR ''}'' then Inr ([(key, v)], r3)
                           else if c2 \<noteq> CHR '','' then Inl JSONDecodeError
                           else
                             (case skip_ws r3 of
                                [] \<Rightarrow> Inl JSONDecodeError
                              | c3 # r4 \<Rightarrow>
                                  if c3 \<noteq> CHR 0x22 then Inl JSONDecodeError
                                  else if length r4 < length s then
                                    (case parse_pairs r4 of
                                       Inl e \<Rightarrow> Inl e
                                     | Inr (ps, rest') \<Rightarrow> Inr ((key, v) # ps, rest'))
                                  else Inl JSONDecodeError)))))"
  by pat_completeness auto

termination scan_once
proof (relation "measure (\<lambda>x. case x of Inl s \<Rightarrow> 2 * length s
                                     | Inr (Inl s) \<Rightarrow> 2 * length s + 1
                                     | Inr (Inr s) \<Rightarrow> 2 * length s + 1)", goal_cases)
  case 1
  then show ?case by simp
next
  case (2 s c cs c1 r1)
  then show ?case using skip_ws_Cons_shorter [of cs c1 r1] by simp
next
  case (3 s c cs c1 r1)
  then show ?case using skip_ws_Cons_shorter [of cs c1 r1] by simp
next
  case (4 s)
  then show ?case by simp
next
  case (5 s p v rest c r)
  then show ?case by simp
next
  case (6 s p key r0 c r1)
  then show ?case
    using scanstring_shorter [of s key r0] skip_ws_Cons_shorter [of r0 c r1] length_skip_ws [of r1]
    by simp
next
  case (7 s p key r0 c r1 p2 v r2 c2 r3 c3 r4)
  then show ?case by simp
qed

declare scan_once.simps [simp del] parse_elems.simps [simp del] parse_pairs.simps [simp del]

definition loads :: "string \<Rightarrow> error + Jsonable" where
  "loads s =
     (case scan_once (skip_ws s) of
        Inl e \<Rightarrow> Inl e
      | Inr (v, rest) \<Rightarrow> if skip_ws rest = [] then Inr v else Inl JSONDecodeError)"

section \<open>The stream of a connection\<close>

text \<open>
  The \<^verbatim>\<open>asyncio.StreamReader\<close> and \<^verbatim>\<open>asyncio.StreamWriter\<close> of a connection, at the level of text:
  \<open>incoming\<close> is what the peer sends before its end of input, \<open>written\<close> what has been
  written and drained. \<open>closed\<close> is set by \<^verbatim>\<open>close()\<close>. \<open>broken\<close> says the transport has
  lost its connection with an error: \<^verbatim>\<open>drain()\<close> and \<^verbatim>\<open>wait_closed()\<close> then raise it.
\<close>

record Stream =
  incoming :: string
  written :: string
  closed :: bool
  broken :: bool

record HijackClient =
  metadata :: Jsonable
  starting_metadata :: "Jsonable option"
  stream :: Stream

definition name :: "HijackClient \<Rightarrow> error + Jsonable" where
  "name c = getitem (metadata c) ''name''"

definition lobby :: "HijackClient \<Rightarrow> error + Jsonable" where
  "lobby c = getitem (metadata c) ''lobby''"

text \<open>
  The line feed. \<^verbatim>\<open>str.encode\<close> and \<^verbatim>\<open>bytes.decode\<close> are the identity on the text of a
  stream.
\<close>

definition newline :: char where
  "newline = CHR 0x0A"

text \<open>
  \<^verbatim>\<open>self._writer.write(data); await self._writer.drain()\<close>: on a transport that is closed
  or has lost its connection the data is dropped and \<^verbatim>\<open>drain\<close> raises.
\<close>

definition write_drain :: "Stream \<Rightarrow> string \<Rightarrow> (error + unit) \<times> Stream" where
  "write_drain s data =
     (if closed s \<or> broken s then (Inl ConnectionResetError, s)
      else (Inr (), s\<lparr>written := written s @ data\<rparr>))"

text \<open>
  \<^verbatim>\<open>await self._reader.readline()\<close>: the text up to and with the next line feed, or all
  that is left when the input ends before one.
\<close>

definition readline :: "Stream \<Rightarrow> string \<times> Stream" where
  "readline s =
     (case dropWhile (\<lambda>c. c \<noteq> newline) (incoming s) of
        [] \<Rightarrow> (incoming s, s\<lparr>incoming := []\<rparr>)
      | _ # rest \<Rightarrow>
          (takeWhile (\<lambda>c. c \<noteq> newline) (incoming s) @ [newline], s\<lparr>incoming := rest\<rparr>))"

definition send_message_raw :: "HijackClient \<Rightarrow> string \<Rightarrow> (error + unit) \<times> HijackClient" where
  "send_message_raw c plod =
     (if newline \<in> set plod then (Inl (PyException ''Message payload contained newline''), c)
      else
        (case write_drain (stream c) (plod @ [newline]) of
           (r, s') \<Rightarrow> (r, c\<lparr>stream := s'\<rparr>)))"

definition read_message_raw :: "HijackClient \<Rightarrow> string option \<times> HijackClient" where
  "read_message_raw c =
     (case readline (stream c) of
        (res, s') \<Rightarrow>
          (if \<not> (res \<noteq> [] \<and> last res = newline) \<or> length res = 0 then None else Some res,
           c\<lparr>stream := s'\<rparr>))"

definition send_message :: "HijackClient \<Rightarrow> Jsonable \<Rightarrow> (error + unit) \<times> HijackClient" where
  "send_message c msg = send_message_raw c (dumps msg)"

text \<open>
  \<^verbatim>\<open>read_message\<close> returns \<^verbatim>\<open>Optional[Jsonable]\<close>: its \<^verbatim>\<open>None\<close> is \<open>JNone\<close>.
\<close>

definition read_message :: "HijackClient \<Rightarrow> (error + Jsonable) \<times> HijackClient" where
  "read_message c =
     (case read_message_raw c of
        (None, c') \<Rightarrow> (Inr JNone, c')
      | (Some msg_raw, c') \<Rightarrow> (loads msg_raw, c'))"

definition send_starting_metadata ::
    "HijackClient \<Rightarrow> Jsonable list \<Rightarrow> (error + unit) \<times> HijackClient" where
  "send_starting_metadata c others =
     (if starting_metadata c \<noteq> None
      then (Inl (PyException ''Tried to send starting metadata twice''), c)
      else
        (let m = JDict [(''state'', JStr ''starting''), (''others'', JList others)]
         in send_message (c\<lparr>starting_metadata := Some m\<rparr>) m))"

text \<open>
  \<^verbatim>\<open>close\<close>: \<^verbatim>\<open>self._writer.close()\<close>, then \<^verbatim>\<open>await self._writer.wait_closed()\<close>, which raises
  when the connection was lost with an error, then \<^verbatim>\<open>self._reader.feed_eof()\<close>: nothing
  more arrives.
\<close>

definition close :: "HijackClient \<Rightarrow> (error + unit) \<times> HijackClient" where
  "close c =
     (let s = (stream c)\<lparr>closed := True\<rparr>
      in if broken s then (Inl ConnectionResetError, c\<lparr>stream := s\<rparr>)
         else (Inr (), c\<lparr>stream := s\<lparr>incoming := []\<rparr>\<rparr>))"

text \<open>
  \<^verbatim>\<open>HijackClient(reader, writer, do_not_call_this_function=42)\<close> as \<^verbatim>\<open>finish_connect_server\<close>
  calls it. \<^verbatim>\<open>_metadata\<close> is not yet set; nothing reads it before the assignment.
\<close>

definition HijackClient_init :: "Stream \<Rightarrow> HijackClient" where
  "HijackClient_init s = \<lparr>metadata = JNone, starting_metadata = None, stream = s\<rparr>"

definition finish_connect_server :: "Stream \<Rightarrow> error + HijackClient" where
  "finish_connect_server s =
     (case read_message (HijackClient_init s) of
        (Inl e, this) \<Rightarrow> Inl e
      | (Inr m, this) \<Rightarrow> Inr (this\<lparr>metadata := m\<rparr>))"

section \<open>HijackLobby\<close>

text \<open>\<open>members_dict\<close> is the dict \<^verbatim>\<open>_members\<close>, in insertion order.\<close>

record HijackLobby =
  lobby_id :: Jsonable
  members_dict :: "(pykey \<times> HijackClient) list"

definition HijackLobby_init :: "Jsonable \<Rightarrow> HijackLobby" where
  "HijackLobby_init lid = \<lparr>lobby_id = lid, members_dict = []\<rparr>"

text \<open>
  \<^verbatim>\<open>add_remote\<close> returns the lobby as the call leaves it, with the exception raised if any.
\<close>

definition add_remote :: "HijackLobby \<Rightarrow> HijackClient \<Rightarrow> (error + unit) \<times> HijackLobby" where
  "add_remote l remote =
     (case name remote of
        Inl e \<Rightarrow> (Inl e, l)
      | Inr n \<Rightarrow>
          (case hashable n of
             Inl e \<Rightarrow> (Inl e, l)
           | Inr k \<Rightarrow>
               if k \<in> set (map fst (members_dict l))
               then (Inl (PyException ''Duplicate name in lobby''), l)
               else (Inr (), l\<lparr>members_dict := AList.update k remote (members_dict l)\<rparr>)))"

definition members :: "HijackLobby \<Rightarrow> HijackClient list" where
  "members l = map snd (members_dict l)"

text \<open>The argument of \<^verbatim>\<open>__contains__\<close> and \<^verbatim>\<open>get_other_members\<close>: \<^verbatim>\<open>Union[str, HijackClient]\<close>.\<close>

datatype item = Name string | Client HijackClient

text \<open>
  \<^verbatim>\<open>__contains__\<close>: for a client it reads \<^verbatim>\<open>item.name\<close> into a variable it never uses, then
  looks up the client object itself among the keys; a client object is equal to none of them.
\<close>

fun contains :: "HijackLobby \<Rightarrow> item \<Rightarrow> error + bool" where
  "contains l (Name s) = Inr (KStr s \<in> set (map fst (members_dict l)))"
| "contains l (Client c) = (case name c of Inl e \<Rightarrow> Inl e | Inr _ \<Rightarrow> Inr False)"

text \<open>
  \<^verbatim>\<open>get_other_members\<close> returns a lazy \<^verbatim>\<open>filter\<close>; the result here is what consuming it gives:
  reading \<^verbatim>\<open>i.name\<close> of a member can raise.
\<close>

fun filter_others :: "Jsonable \<Rightarrow> HijackClient list \<Rightarrow> error + HijackClient list" where
  "filter_others excluded [] = Inr []"
| "filter_others excluded (i # is) =
     (case name i of
        Inl e \<Rightarrow> Inl e
      | Inr n \<Rightarrow>
          (case filter_others excluded is of
             Inl e \<Rightarrow> Inl e
           | Inr rest \<Rightarrow> Inr (if \<not> py_eq n excluded then i # rest else rest)))"

fun get_other_members :: "HijackLobby \<Rightarrow> item \<Rightarrow> error + HijackClient list" where
  "get_other_members l (Name s) = filter_others (JStr s) (members l)"
| "get_other_members l (Client c) =
     (case name c of Inl e \<Rightarrow> Inl e | Inr excluded \<Rightarrow> filter_others excluded (members l))"

text \<open>
  The invariant of a lobby: no key twice (\<^verbatim>\<open>_members\<close> is a dict), and every connection under
  the key of its own name.
\<close>

definition lobby_inv :: "HijackLobby \<Rightarrow> bool" where
  "lobby_inv l =
     (distinct (map fst (members_dict l)) \<and>
      list_all (\<lambda>(k, c). case name c of Inl e \<Rightarrow> False
                         | Inr n \<Rightarrow> hashable n = Inr k) (members_dict l))"

section \<open>HijackServer\<close>

text \<open>
  The injected \<^verbatim>\<open>HijackServerHandler\<close>. \<^verbatim>\<open>run_lobby\<close> returns the lobby as it leaves it, and
  the exception it raised if any.
\<close>

record HijackServerHandler =
  check_lobby_complete :: "HijackLobby \<Rightarrow> bool"
  run_lobby :: "HijackLobby \<Rightarrow> (error + unit) \<times> HijackLobby"

text \<open>\<open>building_lobbies\<close> is the dict \<^verbatim>\<open>_building_lobbies\<close>.\<close>

record HijackServer =
  building_lobbies :: "(pykey \<times> HijackLobby) list"

text \<open>
  \<^verbatim>\<open>_handle_client\<close> is a coroutine: other connections are handled while it waits at an
  \<^verbatim>\<open>await\<close>, and only then. It is cut here where it awaits.

  \<open>join\<close> is lines 216 to 226, from \<^verbatim>\<open>setdefault\<close> to \<^verbatim>\<open>del\<close>, which hold no \<^verbatim>\<open>await\<close>. The
  lobby in the table and the local \<^verbatim>\<open>lobby\<close> are one object, so the table holds the lobby
  as \<^verbatim>\<open>add_remote\<close> leaves it.
\<close>

datatype joined = Waiting | Starting HijackLobby

definition join ::
    "HijackServerHandler \<Rightarrow> HijackServer \<Rightarrow> HijackClient \<Rightarrow> (error + joined) \<times> HijackServer" where
  "join h srv remote =
     (case lobby remote of
        Inl e \<Rightarrow> (Inl e, srv)
      | Inr lid \<Rightarrow>
          (case hashable lid of
             Inl e \<Rightarrow> (Inl e, srv)
           | Inr k \<Rightarrow>
               (let table = (case map_of (building_lobbies srv) k of
                               None \<Rightarrow> building_lobbies srv @ [(k, HijackLobby_init lid)]
                             | Some _ \<Rightarrow> building_lobbies srv);
                    l = (case map_of (building_lobbies srv) k of
                           None \<Rightarrow> HijackLobby_init lid
                         | Some l0 \<Rightarrow> l0)
                in case add_remote l remote of
                     (Inl e, l') \<Rightarrow> (Inl e, srv\<lparr>building_lobbies := table\<rparr>)
                   | (Inr _, l') \<Rightarrow>
                       if \<not> check_lobby_complete h l'
                       then (Inr Waiting, srv\<lparr>building_lobbies := AList.update k l' table\<rparr>)
                       else (Inr (Starting l'),
                             srv\<lparr>building_lobbies := AList.delete k (AList.update k l' table)\<rparr>))))"

text \<open>
  Lines 228 and 229. The list comprehension computes every member's list of other names
  first; \<^verbatim>\<open>asyncio.gather\<close> then runs one \<^verbatim>\<open>send_starting_metadata\<close> for each member. A send
  that raises does not stop the others; \<^verbatim>\<open>gather\<close> raises the first exception.
\<close>

fun names :: "HijackClient list \<Rightarrow> error + Jsonable list" where
  "names [] = Inr []"
| "names (i # is) =
     (case name i of
        Inl e \<Rightarrow> Inl e
      | Inr n \<Rightarrow> (case names is of Inl e \<Rightarrow> Inl e | Inr ns \<Rightarrow> Inr (n # ns)))"

definition others_of :: "HijackLobby \<Rightarrow> HijackClient \<Rightarrow> error + Jsonable list" where
  "others_of l remote =
     (case get_other_members l (Client remote) of Inl e \<Rightarrow> Inl e | Inr cs \<Rightarrow> names cs)"

fun rosters :: "HijackLobby \<Rightarrow> HijackClient list \<Rightarrow> error + Jsonable list list" where
  "rosters l [] = Inr []"
| "rosters l (remote # rs) =
     (case others_of l remote of
        Inl e \<Rightarrow> Inl e
      | Inr os \<Rightarrow> (case rosters l rs of Inl e \<Rightarrow> Inl e | Inr oss \<Rightarrow> Inr (os # oss)))"

fun gather :: "(error + unit) list \<Rightarrow> error + unit" where
  "gather [] = Inr ()"
| "gather (Inl e # rs) = Inl e"
| "gather (Inr _ # rs) = gather rs"

definition broadcast :: "HijackLobby \<Rightarrow> (error + unit) \<times> HijackLobby" where
  "broadcast l =
     (case rosters l (members l) of
        Inl e \<Rightarrow> (Inl e, l)
      | Inr oss \<Rightarrow>
          (let sent = map (\<lambda>((k, remote), os). (k, send_starting_metadata remote os))
                          (zip (members_dict l) oss)
           in (gather (map (\<lambda>(k, r, c). r) sent),
               l\<lparr>members_dict := map (\<lambda>(k, r, c). (k, c)) sent\<rparr>)))"

text \<open>Lines 235 and 236: \<^verbatim>\<open>for i in lobby: await i.close()\<close>.\<close>

fun close_all :: "(pykey \<times> HijackClient) list \<Rightarrow> (error + unit) \<times> (pykey \<times> HijackClient) list" where
  "close_all [] = (Inr (), [])"
| "close_all ((k, i) # rest) =
     (case close i of
        (Inl e, i') \<Rightarrow> (Inl e, (k, i') # rest)
      | (Inr _, i') \<Rightarrow> (case close_all rest of (r, rest') \<Rightarrow> (r, (k, i') # rest')))"

text \<open>Lines 228 to 236, on the lobby that has just been taken out of the table.\<close>

definition start_lobby :: "HijackServerHandler \<Rightarrow> HijackLobby \<Rightarrow> (error + unit) \<times> HijackLobby" where
  "start_lobby h l =
     (case broadcast l of
        (Inl e, l1) \<Rightarrow> (Inl e, l1)
      | (Inr _, l1) \<Rightarrow>
          (case run_lobby h l1 of
             (Inl e, l2) \<Rightarrow> (Inl e, l2)
           | (Inr _, l2) \<Rightarrow>
               (case close_all (members_dict l2) of
                  (r, ms) \<Rightarrow> (r, l2\<lparr>members_dict := ms\<rparr>))))"

text \<open>
  \<^verbatim>\<open>_handle_client\<close>: the exception it ends with if any, the server, and the lobby it
  started if it started one.
\<close>

definition handle_client ::
    "HijackServerHandler \<Rightarrow> HijackServer \<Rightarrow> Stream
       \<Rightarrow> (error + unit) \<times> HijackServer \<times> HijackLobby option" where
  "handle_client h srv s =
     (case finish_connect_server s of
        Inl e \<Rightarrow> (Inl e, srv, None)
      | Inr remote \<Rightarrow>
          (case join h srv remote of
             (Inl e, srv') \<Rightarrow> (Inl e, srv', None)
           | (Inr Waiting, srv') \<Rightarrow> (Inr (), srv', None)
           | (Inr (Starting l), srv') \<Rightarrow>
               (case start_lobby h l of (r, l') \<Rightarrow> (r, srv', Some l'))))"

section \<open>Notions the properties are stated with\<close>






text \<open>
  What holds of every lobby of the table: the invariant of a lobby, and no member has been
  sent a roster. A lobby is live when no connection of it is closed or lost.
\<close>

definition no_roster_yet :: "HijackLobby \<Rightarrow> bool" where
  "no_roster_yet l = list_all (\<lambda>p. starting_metadata (snd p) = None) (members_dict l)"

definition server_inv :: "HijackServer \<Rightarrow> bool" where
  "server_inv srv = list_all (\<lambda>p. lobby_inv (snd p) \<and> no_roster_yet (snd p)) (building_lobbies srv)"





text \<open>The results of the three parsers leave a shorter text, for every text up to a length.\<close>

definition shorter_upto :: "nat \<Rightarrow> bool" where
  "shorter_upto n =
     (\<forall>s. length s \<le> n \<longrightarrow>
        (\<forall>v rest. scan_once s = Inr (v, rest) \<longrightarrow> length rest < length s) \<and>
        (\<forall>vs rest. parse_elems s = Inr (vs, rest) \<longrightarrow> length rest < length s) \<and>
        (\<forall>ps rest. parse_pairs s = Inr (ps, rest) \<longrightarrow> length rest < length s))"

section \<open>Examples\<close>

text \<open>
  The scenario of the specification: alice and bob declare the lobby \<^verbatim>\<open>t\<close>; carol comes
  later.
\<close>

definition stream_of :: "string \<Rightarrow> Stream" where
  "stream_of text = \<lparr>incoming = text, written = [], closed = False, broken = False\<rparr>"

definition server0 :: HijackServer where
  "server0 = \<lparr>building_lobbies = []\<rparr>"

definition alice :: HijackClient where
  "alice = \<lparr>metadata = JDict [(''name'', JStr ''alice''), (''lobby'', JStr ''t'')],
            starting_metadata = None,
            stream = \<lparr>incoming = [], written = [], closed = False, broken = False\<rparr>\<rparr>"

definition bob :: HijackClient where
  "bob = \<lparr>metadata = JDict [(''name'', JStr ''bob''), (''lobby'', JStr ''t'')],
          starting_metadata = None,
          stream = \<lparr>incoming = [], written = [], closed = False, broken = False\<rparr>\<rparr>"

definition carol :: HijackClient where
  "carol = \<lparr>metadata = JDict [(''name'', JStr ''carol''), (''lobby'', JStr ''t'')],
            starting_metadata = None, stream = stream_of []\<rparr>"


definition lobby_t :: HijackLobby where
  "lobby_t = \<lparr>lobby_id = JStr ''t'', members_dict = [(KStr ''alice'', alice), (KStr ''bob'', bob)]\<rparr>"


text \<open>
  Handlers: the completion rule of \<^verbatim>\<open>examples/simple.py\<close>, with a runner that returns at
  once, and with a runner during which the connection of the first member is lost.
\<close>

definition two_members :: "HijackLobby \<Rightarrow> bool" where
  "two_members l = (2 \<le> length (members l))"

definition handler_ok :: HijackServerHandler where
  "handler_ok = \<lparr>check_lobby_complete = two_members, run_lobby = (\<lambda>l. (Inr (), l))\<rparr>"

definition lose_first :: "HijackLobby \<Rightarrow> HijackLobby" where
  "lose_first l =
     (case members_dict l of
        [] \<Rightarrow> l
      | (k, c) # rest \<Rightarrow> l\<lparr>members_dict := (k, c\<lparr>stream := (stream c)\<lparr>broken := True\<rparr>\<rparr>) # rest\<rparr>)"

definition handler_lost :: HijackServerHandler where
  "handler_lost = \<lparr>check_lobby_complete = two_members, run_lobby = (\<lambda>l. (Inr (), lose_first l))\<rparr>"

section \<open>The parser goes on with a shorter text\<close>

lemma match_number_shorter:
  assumes "match_number s = Some (Inr (i, rest))"
  shows "length rest < length s"
proof -
  have d: "length (dropWhile is_digit ds) \<le> length ds" for ds
    by (rule length_dropWhile_le)
  show ?thesis
  proof (cases s)
    case Nil
    with assms show ?thesis by (simp add: match_number_def)
  next
    case (Cons c cs)
    show ?thesis
    proof (cases "c = CHR ''-''")
      case True
      with assms Cons d show ?thesis
        by (auto simp: match_number_def Let_def le_imp_less_Suc less_SucI
                 split: list.splits if_splits)
    next
      case False
      with assms Cons d show ?thesis
        by (auto simp: match_number_def Let_def le_imp_less_Suc split: list.splits if_splits)
    qed
  qed
qed

lemma skip_ws_Cons_le: "skip_ws r = c # r' \<Longrightarrow> Suc (length r') \<le> length r"
  using length_skip_ws [of r] by simp

lemma scan_once_step:
  assumes IH: "shorter_upto n" and len: "length s \<le> Suc n" and r: "scan_once s = Inr (v, rest)"
  shows "length rest < length s"
proof (cases s)
  case Nil
  with r show ?thesis by (subst (asm) scan_once.simps) simp
next
  case (Cons c cs)
  from len Cons have cs: "length cs \<le> n" by simp
  have pairs: "length rest' < length cs"
    if "skip_ws cs = c1 # r1" "parse_pairs r1 = Inr (ps, rest')" for c1 r1 ps rest'
  proof -
    from that(1) have "Suc (length r1) \<le> length cs" by (rule skip_ws_Cons_le)
    moreover from this cs IH that(2) have "length rest' < length r1"
      by (auto simp: shorter_upto_def)
    ultimately show ?thesis by simp
  qed
  have elems: "length rest' < length cs"
    if "skip_ws cs = c1 # r1" "parse_elems (c1 # r1) = Inr (vs, rest')" for c1 r1 vs rest'
  proof -
    from that(1) have "length (c1 # r1) \<le> length cs" using length_skip_ws [of cs] by simp
    moreover from this cs IH that(2) have "length rest' < length (c1 # r1)"
      unfolding shorter_upto_def by (meson le_trans)
    ultimately show ?thesis by simp
  qed
  from r Cons have u: "scan_once (c # cs) = Inr (v, rest)" by simp
  show ?thesis
  proof (cases "c = CHR 0x22")
    case True
    with u have "(case scanstring cs of Inl e \<Rightarrow> Inl e
                  | Inr (str, rest') \<Rightarrow> Inr (JStr str, rest')) = Inr (v, rest)"
      by (subst (asm) scan_once.simps) simp
    then obtain str where "scanstring cs = Inr (str, rest)" by (auto split: sum.splits)
    then have "length rest < length cs" by (rule scanstring_shorter)
    with Cons show ?thesis by simp
  next
    case nq: False
    show ?thesis
    proof (cases "c = CHR ''{''")
      case True
      with u have "(case skip_ws cs of
               [] \<Rightarrow> Inl JSONDecodeError
             | c1 # r1 \<Rightarrow>
                 if c1 = CHR ''}'' then Inr (JDict [], r1)
                 else if c1 = CHR 0x22 then
                   (case parse_pairs r1 of
                      Inl e \<Rightarrow> Inl e
                    | Inr (ps, rest') \<Rightarrow> Inr (JDict (dict_of_pairs ps), rest'))
                 else Inl JSONDecodeError) = Inr (v, rest)"
        by (subst (asm) scan_once.simps) simp
      then have "length rest < length cs"
        using pairs skip_ws_Cons_le [of cs]
        by (auto split: list.splits if_splits sum.splits)
      with Cons show ?thesis by simp
    next
      case nb: False
      show ?thesis
      proof (cases "c = CHR ''[''")
        case True
        with u have "(case skip_ws cs of
               [] \<Rightarrow> Inl JSONDecodeError
             | c1 # r1 \<Rightarrow>
                 if c1 = CHR '']'' then Inr (JList [], r1)
                 else
                   (case parse_elems (c1 # r1) of
                      Inl e \<Rightarrow> Inl e
                    | Inr (vs, rest') \<Rightarrow> Inr (JList vs, rest'))) = Inr (v, rest)"
          by (subst (asm) scan_once.simps) simp
        then have "length rest < length cs"
          using elems skip_ws_Cons_le [of cs]
          by (auto split: list.splits if_splits sum.splits)
        with Cons show ?thesis by simp
      next
        case nl: False
        from u nq nb nl have
          "(if c = CHR ''n'' \<and> take 4 (c # cs) = ''null'' then Inr (JNone, drop 4 (c # cs))
            else if c = CHR ''t'' \<and> take 4 (c # cs) = ''true'' then Inr (JBool True, drop 4 (c # cs))
            else if c = CHR ''f'' \<and> take 5 (c # cs) = ''false'' then Inr (JBool False, drop 5 (c # cs))
            else
              (case match_number (c # cs) of
                 Some (Inl e) \<Rightarrow> Inl e
               | Some (Inr (i, rest')) \<Rightarrow> Inr (JInt i, rest')
               | None \<Rightarrow>
                 if c = CHR ''N'' \<and> take 3 (c # cs) = ''NaN'' then Inl OutsideModel
                 else if c = CHR ''I'' \<and> take 8 (c # cs) = ''Infinity'' then Inl OutsideModel
                 else if c = CHR ''-'' \<and> take 9 (c # cs) = ''-Infinity'' then Inl OutsideModel
                 else Inl JSONDecodeError)) = Inr (v, rest)"
          by (subst (asm) scan_once.simps) (simp del: take_Suc_Cons drop_Suc_Cons)
        then have "rest = drop 3 cs \<or> rest = drop 4 cs \<or>
                   (\<exists>i. match_number (c # cs) = Some (Inr (i, rest)))"
          by (auto split: if_splits option.splits sum.splits)
        then show ?thesis
          using match_number_shorter [of "c # cs" _ rest] Cons by auto
      qed
    qed
  qed
qed

lemma parse_elems_step:
  assumes IH: "shorter_upto n" and len: "length s \<le> Suc n"
    and sc: "\<And>v rest. scan_once s = Inr (v, rest) \<Longrightarrow> length rest < length s"
    and r: "parse_elems s = Inr (vs, rest)"
  shows "length rest < length s"
proof -
  from r obtain v rest0 where s0: "scan_once s = Inr (v, rest0)"
    by (subst (asm) parse_elems.simps) (auto split: sum.splits)
  from r s0 obtain c r' where w: "skip_ws rest0 = c # r'"
    by (subst (asm) parse_elems.simps) (auto split: list.splits)
  from sc [OF s0] skip_ws_Cons_le [OF w] have r': "length r' < length s" by simp
  from r s0 w have
    "(c = CHR '']'' \<and> rest = r') \<or>
     (length (skip_ws r') < length s \<and> (\<exists>vs'. parse_elems (skip_ws r') = Inr (vs', rest)))"
    by (subst (asm) parse_elems.simps) (auto split: if_splits sum.splits)
  then show ?thesis
  proof
    assume "c = CHR '']'' \<and> rest = r'"
    with r' show ?thesis by simp
  next
    assume a: "length (skip_ws r') < length s \<and> (\<exists>vs'. parse_elems (skip_ws r') = Inr (vs', rest))"
    then obtain vs' where p: "parse_elems (skip_ws r') = Inr (vs', rest)" by blast
    from a len have "length (skip_ws r') \<le> n" by simp
    with IH p have "length rest < length (skip_ws r')" by (auto simp: shorter_upto_def)
    with a show ?thesis by simp
  qed
qed

lemma parse_pairs_step:
  assumes IH: "shorter_upto n" and len: "length s \<le> Suc n"
    and r: "parse_pairs s = Inr (ps, rest)"
  shows "length rest < length s"
proof -
  from r obtain key r0 where k: "scanstring s = Inr (key, r0)"
    by (subst (asm) parse_pairs.simps) (auto split: sum.splits)
  from r k obtain c r1 where w0: "skip_ws r0 = c # r1"
    by (subst (asm) parse_pairs.simps) (auto split: list.splits)
  from r k w0 obtain v r2 where v: "scan_once (skip_ws r1) = Inr (v, r2)"
    by (subst (asm) parse_pairs.simps) (auto split: if_splits sum.splits)
  from r k w0 v obtain c2 r3 where w2: "skip_ws r2 = c2 # r3"
    by (subst (asm) parse_pairs.simps) (auto split: if_splits list.splits)
  have l1: "length r1 < length s"
    using scanstring_shorter [OF k] skip_ws_Cons_le [OF w0] by simp
  then have "length (skip_ws r1) \<le> n" using length_skip_ws [of r1] len by simp
  with IH v have "length r2 < length (skip_ws r1)" by (auto simp: shorter_upto_def)
  with l1 length_skip_ws [of r1] have l2: "length r2 < length s" by simp
  with skip_ws_Cons_le [OF w2] have l3: "length r3 < length s" by simp
  from r k w0 v w2 have
    "(c2 = CHR ''}'' \<and> rest = r3) \<or>
     (\<exists>r4 ps'. length r4 < length s \<and> parse_pairs r4 = Inr (ps', rest))"
    by (subst (asm) parse_pairs.simps) (auto split: if_splits sum.splits list.splits)
  then show ?thesis
  proof
    assume "c2 = CHR ''}'' \<and> rest = r3"
    with l3 show ?thesis by simp
  next
    assume "\<exists>r4 ps'. length r4 < length s \<and> parse_pairs r4 = Inr (ps', rest)"
    then obtain r4 ps' where a: "length r4 < length s" and p: "parse_pairs r4 = Inr (ps', rest)"
      by blast
    from a len have "length r4 \<le> n" by simp
    with IH p have "length rest < length r4" by (auto simp: shorter_upto_def)
    with a show ?thesis by simp
  qed
qed

lemma shorter_upto_all: "shorter_upto n"
proof (induction n)
  case 0
  have "scan_once [] = Inl JSONDecodeError" by (subst scan_once.simps) simp
  moreover from this have "parse_elems [] = Inl JSONDecodeError"
    by (subst parse_elems.simps) simp
  moreover have "parse_pairs [] = Inl JSONDecodeError" by (subst parse_pairs.simps) simp
  ultimately show ?case by (simp add: shorter_upto_def)
next
  case (Suc n)
  show ?case
    unfolding shorter_upto_def
  proof (intro allI impI conjI)
    fix s v rest
    assume "length s \<le> Suc n" "scan_once s = Inr (v, rest)"
    with Suc show "length rest < length s" by (rule scan_once_step)
  next
    fix s vs rest
    assume l: "length s \<le> Suc n" and p: "parse_elems s = Inr (vs, rest)"
    show "length rest < length s"
      using Suc l _ p
    proof (rule parse_elems_step)
      fix v rest'
      assume "scan_once s = Inr (v, rest')"
      with Suc l show "length rest' < length s" by (rule scan_once_step)
    qed
  next
    fix s ps rest
    assume "length s \<le> Suc n" "parse_pairs s = Inr (ps, rest)"
    with Suc show "length rest < length s" by (rule parse_pairs_step)
  qed
qed

lemma scan_once_shorter: "scan_once s = Inr (v, rest) \<Longrightarrow> length rest < length s"
  using shorter_upto_all [of "length s"] by (simp add: shorter_upto_def)

text \<open>The loops without the tests.\<close>

lemma parse_elems_unguarded:
  "parse_elems s =
     (case scan_once s of
        Inl e \<Rightarrow> Inl e
      | Inr (v, rest) \<Rightarrow>
          (case skip_ws rest of
             [] \<Rightarrow> Inl JSONDecodeError
           | c # r \<Rightarrow>
               if c = CHR '']'' then Inr ([v], r)
               else if c \<noteq> CHR '','' then Inl JSONDecodeError
               else
                 (case parse_elems (skip_ws r) of
                    Inl e \<Rightarrow> Inl e
                  | Inr (vs, rest') \<Rightarrow> Inr (v # vs, rest'))))"
proof -
  have "length (skip_ws r) < length s"
    if "scan_once s = Inr (v, rest)" "skip_ws rest = c # r" for v rest c r
    using scan_once_shorter [OF that(1)] skip_ws_Cons_le [OF that(2)] length_skip_ws [of r]
    by simp
  then show ?thesis
    by (subst parse_elems.simps) (auto split: sum.splits list.splits)
qed

lemma parse_pairs_unguarded:
  "parse_pairs s =
     (case scanstring s of
        Inl e \<Rightarrow> Inl e
      | Inr (key, r0) \<Rightarrow>
          (case skip_ws r0 of
             [] \<Rightarrow> Inl JSONDecodeError
           | c # r1 \<Rightarrow>
               if c \<noteq> CHR '':'' then Inl JSONDecodeError
               else
                 (case scan_once (skip_ws r1) of
                    Inl e \<Rightarrow> Inl e
                  | Inr (v, r2) \<Rightarrow>
                      (case skip_ws r2 of
                         [] \<Rightarrow> Inl JSONDecodeError
                       | c2 # r3 \<Rightarrow>
                           if c2 = CHR ''}'' then Inr ([(key, v)], r3)
                           else if c2 \<noteq> CHR '','' then Inl JSONDecodeError
                           else
                             (case skip_ws r3 of
                                [] \<Rightarrow> Inl JSONDecodeError
                              | c3 # r4 \<Rightarrow>
                                  if c3 \<noteq> CHR 0x22 then Inl JSONDecodeError
                                  else
                                    (case parse_pairs r4 of
                                       Inl e \<Rightarrow> Inl e
                                     | Inr (ps, rest') \<Rightarrow> Inr ((key, v) # ps, rest')))))))"
proof -
  have "length r4 < length s"
    if "scanstring s = Inr (key, r0)" "skip_ws r0 = c # r1" "scan_once (skip_ws r1) = Inr (v, r2)"
       "skip_ws r2 = c2 # r3" "skip_ws r3 = c3 # r4" for key r0 c r1 v r2 c2 r3 c3 r4
    using scanstring_shorter [OF that(1)] skip_ws_Cons_le [OF that(2)] length_skip_ws [of r1]
          scan_once_shorter [OF that(3)] skip_ws_Cons_le [OF that(4)] skip_ws_Cons_le [OF that(5)]
    by simp
  then show ?thesis
    by (subst parse_pairs.simps) (auto split: sum.splits list.splits)
qed

section \<open>The lobby\<close>

lemma name_alice: "name alice = Inr (JStr ''alice'')"
  by (simp add: name_def alice_def)

lemma name_bob: "name bob = Inr (JStr ''bob'')"
  by (simp add: name_def bob_def)

lemma update_fresh: "k \<notin> set (map fst al) \<Longrightarrow> AList.update k v al = al @ [(k, v)]"
  by (induction al) auto

text \<open>
  C6. \<^verbatim>\<open>add_remote\<close> of a connection whose name is already a key of the lobby raises
  \<^verbatim>\<open>Exception("Duplicate name in lobby")\<close> and leaves the lobby as it was; when the name is
  no key yet, the connection is stored under it after the members there were, which all
  stay.
\<close>

theorem add_remote_duplicate:
  assumes "name remote = Inr n" and "hashable n = Inr k"
  shows "(k \<in> set (map fst (members_dict l)) \<longrightarrow>
            add_remote l remote = (Inl (PyException ''Duplicate name in lobby''), l)) \<and>
         (k \<notin> set (map fst (members_dict l)) \<longrightarrow>
            add_remote l remote = (Inr (), l\<lparr>members_dict := members_dict l @ [(k, remote)]\<rparr>))"
  using assms by (simp add: add_remote_def update_fresh)

theorem add_remote_duplicate_witness:
  "add_remote \<lparr>lobby_id = JStr ''t'', members_dict = [(KStr ''alice'', alice)]\<rparr> alice
     = (Inl (PyException ''Duplicate name in lobby''),
        \<lparr>lobby_id = JStr ''t'', members_dict = [(KStr ''alice'', alice)]\<rparr>) \<and>
   add_remote \<lparr>lobby_id = JStr ''t'', members_dict = [(KStr ''alice'', alice)]\<rparr> bob
     = (Inr (), \<lparr>lobby_id = JStr ''t'',
                 members_dict = [(KStr ''alice'', alice), (KStr ''bob'', bob)]\<rparr>)"
  using add_remote_duplicate [OF name_alice, of "KStr ''alice''"
          "\<lparr>lobby_id = JStr ''t'', members_dict = [(KStr ''alice'', alice)]\<rparr>"]
        add_remote_duplicate [OF name_bob, of "KStr ''bob''"
          "\<lparr>lobby_id = JStr ''t'', members_dict = [(KStr ''alice'', alice)]\<rparr>"]
  by simp

text \<open>
  C9. In every lobby each member is stored under its own name: the key of an entry is the
  key of the name its connection reports (and no key occurs twice). This holds of the
  empty lobby \<^verbatim>\<open>HijackLobby(lobby_id)\<close> and \<^verbatim>\<open>add_remote\<close> keeps it, whether it stores the
  connection or raises.
\<close>

theorem lobby_inv_preserved:
  "lobby_inv (HijackLobby_init lid) \<and>
   (lobby_inv l \<longrightarrow> lobby_inv (snd (add_remote l remote)))"
  by (auto simp: lobby_inv_def HijackLobby_init_def add_remote_def update_fresh
           split: sum.splits)

theorem lobby_inv_preserved_witness:
  "lobby_inv (HijackLobby_init (JStr ''t'')) \<and>
   lobby_inv (snd (add_remote (HijackLobby_init (JStr ''t'')) alice)) \<and>
   snd (add_remote (HijackLobby_init (JStr ''t'')) alice)
     = \<lparr>lobby_id = JStr ''t'', members_dict = [(KStr ''alice'', alice)]\<rparr>"
  using lobby_inv_preserved [of "JStr ''t''" "HijackLobby_init (JStr ''t'')" alice]
  by (simp add: add_remote_def name_alice HijackLobby_init_def)

text \<open>
  C10, as stated, fails: a connection whose first message was no object with a
  \<^verbatim>\<open>"name"\<close> (here the handshake met the end of input, so \<^verbatim>\<open>_metadata\<close> is \<^verbatim>\<open>None\<close>) does not
  test \<^verbatim>\<open>False\<close>: reading \<^verbatim>\<open>item.name\<close> raises.
\<close>

theorem contains_client_counterexample:
  "contains \<lparr>lobby_id = JStr ''t'', members_dict = []\<rparr>
     (Client \<lparr>metadata = JNone, starting_metadata = None,
              stream = \<lparr>incoming = [], written = [], closed = False, broken = False\<rparr>\<rparr>)
     = Inl TypeError"
  by (simp add: name_def)

text \<open>
  C10, amended. For every lobby and every connection whose name can be read, a member of
  the lobby or not, \<^verbatim>\<open>connection in lobby\<close> is \<^verbatim>\<open>False\<close>; whatever tests \<^verbatim>\<open>True\<close> is a string
  that is a key of the lobby.
\<close>

theorem contains_client_False:
  "(name c = Inr n \<longrightarrow> contains l (Client c) = Inr False) \<and>
   (contains l it = Inr True \<longrightarrow> (\<exists>s. it = Name s \<and> KStr s \<in> set (map fst (members_dict l))))"
  by (cases it) (auto split: sum.splits)

theorem contains_client_False_witness:
  "contains \<lparr>lobby_id = JStr ''t'', members_dict = [(KStr ''alice'', alice)]\<rparr> (Client alice)
     = Inr False \<and>
   contains \<lparr>lobby_id = JStr ''t'', members_dict = [(KStr ''alice'', alice)]\<rparr> (Name ''alice'')
     = Inr True"
  using contains_client_False [of alice "JStr ''alice''"
          "\<lparr>lobby_id = JStr ''t'', members_dict = [(KStr ''alice'', alice)]\<rparr>" "Name ''alice''"]
  by (simp add: name_alice)

section \<open>The codec never writes a line feed\<close>

lemma digit_char_range: "d < 10 \<Longrightarrow> of_char (digit_char d) = 48 + d"
  by (simp add: digit_char_def)

lemma digit_char_not_newline: "d < 10 \<Longrightarrow> newline \<noteq> digit_char d"
proof
  assume "d < 10" and "newline = digit_char d"
  then have "(of_char (digit_char d) :: nat) = of_char newline" by simp
  with \<open>d < 10\<close> show False by (simp add: digit_char_range newline_def)
qed

lemma show_nat_no_newline: "newline \<notin> set (show_nat n)"
proof (induction n rule: show_nat.induct)
  case (1 n)
  show ?case
  proof (cases "n < 10")
    case True
    then show ?thesis by (subst show_nat.simps) (simp add: digit_char_not_newline)
  next
    case False
    have "newline \<noteq> digit_char (n mod 10)" by (rule digit_char_not_newline) simp
    with False 1 show ?thesis by (subst show_nat.simps) simp
  qed
qed

lemma show_int_no_newline: "newline \<notin> set (show_int i)"
  by (simp add: show_int_def show_nat_no_newline) (simp add: newline_def)

lemma hex_char_range:
  "d < 16 \<Longrightarrow> of_char (hex_char d) = (if d < 10 then 48 + d else 87 + d)"
  by (simp add: hex_char_def)

lemma hex_char_not_newline: "d < 16 \<Longrightarrow> newline \<noteq> hex_char d"
proof
  assume "d < 16" and "newline = hex_char d"
  then have "(of_char (hex_char d) :: nat) = of_char newline" by simp
  with \<open>d < 16\<close> show False by (simp add: hex_char_range newline_def split: if_splits)
qed

lemma of_char_less_256: "(of_char c :: nat) < 256"
  by (cases c) (simp add: of_char_Char)

lemma escape_char_no_newline: "newline \<notin> set (escape_char c)"
proof -
  have "(of_char c :: nat) div 16 < 16"
    using of_char_less_256 [of c] by (simp add: less_mult_imp_div_less)
  then have a: "newline \<noteq> hex_char ((of_char c :: nat) div 16)" by (rule hex_char_not_newline)
  have b: "newline \<noteq> hex_char ((of_char c :: nat) mod 16)" by (rule hex_char_not_newline) simp
  show ?thesis using a b by (auto simp: escape_char_def newline_def)
qed

lemma encode_basestring_ascii_no_newline: "newline \<notin> set (encode_basestring_ascii s)"
  by (auto simp: encode_basestring_ascii_def escape_char_no_newline) (simp_all add: newline_def)

lemma dumps_no_newline_aux:
  "newline \<notin> set (dumps v)" "newline \<notin> set (dumps_elems vs)" "newline \<notin> set (dumps_items kvs)"
proof (induction v and vs and kvs rule: dumps_dumps_elems_dumps_items.induct)
qed (auto simp: show_int_no_newline encode_basestring_ascii_no_newline, simp_all add: newline_def)

lemma dumps_no_newline: "newline \<notin> set (dumps v)"
  by (rule dumps_no_newline_aux(1))

section \<open>Decoding what was encoded\<close>



















































section \<open>The broadcast\<close>












section \<open>Starting a lobby\<close>

lemma close_all_ok:
  "list_all (\<lambda>(k, c). \<not> broken (stream c)) ms \<Longrightarrow>
   close_all ms = (Inr (), map (\<lambda>(k, c). (k, snd (close c))) ms)"
  by (induction ms) (auto simp: close_def Let_def)

lemma close_all_fails:
  "list_all (\<lambda>(k, c). \<not> broken (stream c)) pre \<Longrightarrow> broken (stream c) \<Longrightarrow>
   close_all (pre @ (k, c) # post) =
     (Inl ConnectionResetError, map (\<lambda>(k, c). (k, snd (close c))) pre @ (k, snd (close c)) # post)"
  by (induction pre) (auto simp: close_def Let_def)

lemma closed_close: "closed (stream (snd (close c)))"
  by (simp add: close_def Let_def)

text \<open>
  C1, as stated, fails. Two members; the runner returns normally, and while it ran the
  connection of the first member was lost. Closing the first member then raises, and the
  second member's connection is never closed.
\<close>

theorem start_lobby_close_counterexample:
  "fst (start_lobby handler_lost lobby_t) = Inl ConnectionResetError \<and>
   map (\<lambda>(k, c). (k, closed (stream c))) (members_dict (snd (start_lobby handler_lost lobby_t)))
     = [(KStr ''alice'', True), (KStr ''bob'', False)]"
  by code_simp

text \<open>
  C1, amended. After the runner has returned normally, the server closes the members'
  connections one after the other, in the order of the lobby. If no close fails, every
  member's connection is closed. If the close of a member fails, the exception leaves
  \<^verbatim>\<open>_handle_client\<close>: the members before it are closed, the members after it are left as
  they were.
\<close>

theorem start_lobby_closes:
  assumes "broadcast l = (Inr (), l1)" and "run_lobby h l1 = (Inr (), l2)"
  shows "(list_all (\<lambda>(k, c). \<not> broken (stream c)) (members_dict l2) \<longrightarrow>
            start_lobby h l =
              (Inr (), l2\<lparr>members_dict := map (\<lambda>(k, c). (k, snd (close c))) (members_dict l2)\<rparr>) \<and>
            list_all (\<lambda>(k, c). closed (stream c)) (members_dict (snd (start_lobby h l)))) \<and>
         (members_dict l2 = pre @ (k, c) # post \<and>
          list_all (\<lambda>(k, c). \<not> broken (stream c)) pre \<and> broken (stream c) \<longrightarrow>
            start_lobby h l =
              (Inl ConnectionResetError,
               l2\<lparr>members_dict :=
                    map (\<lambda>(k, c). (k, snd (close c))) pre @ (k, snd (close c)) # post\<rparr>))"
  using assms
  by (auto simp: start_lobby_def close_all_ok close_all_fails list_all_iff closed_close)

lemma broadcast_lobby_t: "broadcast lobby_t = (Inr (), snd (broadcast lobby_t))"
  by code_simp

lemma run_ok: "run_lobby handler_ok l = (Inr (), l)"
  by (simp add: handler_ok_def)

lemma unbroken_lobby_t:
  "list_all (\<lambda>(k, c). \<not> broken (stream c)) (members_dict (snd (broadcast lobby_t)))"
  by code_simp

lemma run_lost: "run_lobby handler_lost l = (Inr (), lose_first l)"
  by (simp add: handler_lost_def)

lemma lost_members:
  "members_dict (lose_first (snd (broadcast lobby_t))) =
     [] @ (KStr ''alice'', snd (hd (members_dict (lose_first (snd (broadcast lobby_t))))))
        # tl (members_dict (snd (broadcast lobby_t)))"
  by code_simp

lemma lost_broken:
  "broken (stream (snd (hd (members_dict (lose_first (snd (broadcast lobby_t)))))))"
  by code_simp

theorem start_lobby_closes_witness:
  "fst (start_lobby handler_ok lobby_t) = Inr () \<and>
   list_all (\<lambda>(k, c). closed (stream c)) (members_dict (snd (start_lobby handler_ok lobby_t))) \<and>
   fst (start_lobby handler_lost lobby_t) = Inl ConnectionResetError \<and>
   tl (members_dict (snd (start_lobby handler_lost lobby_t))) = tl (members_dict (snd (broadcast lobby_t)))"
proof -
  note closes = start_lobby_closes [OF broadcast_lobby_t run_ok, of "[]" "KStr ''alice''" alice "[]"]
  from closes unbroken_lobby_t
  have a: "start_lobby handler_ok lobby_t =
             (Inr (), (snd (broadcast lobby_t))\<lparr>members_dict :=
                map (\<lambda>(k, c). (k, snd (close c))) (members_dict (snd (broadcast lobby_t)))\<rparr>)"
    by blast
  from closes unbroken_lobby_t
  have b: "list_all (\<lambda>(k, c). closed (stream c))
             (members_dict (snd (start_lobby handler_ok lobby_t)))"
    by blast
  from a have a': "fst (start_lobby handler_ok lobby_t) = Inr ()" by simp
  let ?c = "snd (hd (members_dict (lose_first (snd (broadcast lobby_t)))))"
  let ?post = "tl (members_dict (snd (broadcast lobby_t)))"
  from start_lobby_closes [OF broadcast_lobby_t run_lost, of "[]" "KStr ''alice''" ?c ?post]
       lost_members lost_broken
  have c: "start_lobby handler_lost lobby_t =
             (Inl ConnectionResetError,
              (lose_first (snd (broadcast lobby_t)))\<lparr>members_dict :=
                 map (\<lambda>(k, c). (k, snd (close c))) [] @ (KStr ''alice'', snd (close ?c)) # ?post\<rparr>)"
    by simp
  from c have c1: "fst (start_lobby handler_lost lobby_t) = Inl ConnectionResetError" by simp
  from c have c2: "tl (members_dict (snd (start_lobby handler_lost lobby_t))) = ?post" by simp
  from a' b c1 c2 show ?thesis by blast
qed

text \<open>
  When the runner raises, \<^verbatim>\<open>_handle_client\<close> ends with its exception and the lobby is as
  the runner left it: the loop that closes the connections is not reached.
\<close>

lemma start_lobby_runner_raises:
  "broadcast l = (Inr (), l1) \<Longrightarrow> run_lobby h l1 = (Inl e, l2) \<Longrightarrow> start_lobby h l = (Inl e, l2)"
  by (simp add: start_lobby_def)

section \<open>Joining\<close>

lemma update_appended:
  "k \<notin> fst ` set al \<Longrightarrow> AList.update k v (al @ [(k, w)]) = al @ [(k, v)]"
  by (induction al) auto

lemma delete_appended: "k \<notin> fst ` set al \<Longrightarrow> AList.delete k (al @ [(k, w)]) = al"
  by (induction al) auto

text \<open>
  C2. When the completion predicate is true of the lobby a connection has just joined,
  the lobby id is no key of the table any more when \<open>join\<close> is over, and the lobby handed
  on is the lobby as \<^verbatim>\<open>add_remote\<close> left it: nothing has been sent. The broadcast, the first
  step of \<open>start_lobby\<close>, comes after. A connection that names the same lobby id
  afterwards is stored in a new lobby of which it is the only member.
\<close>

theorem join_removes_lobby:
  assumes "join h srv remote = (Inr (Starting l), srv')"
    and "lobby remote = Inr lid" and "hashable lid = Inr k"
  shows "map_of (building_lobbies srv') k = None \<and>
         l = snd (add_remote (case map_of (building_lobbies srv) k of
                                None \<Rightarrow> HijackLobby_init lid | Some l0 \<Rightarrow> l0) remote) \<and>
         (\<forall>s. finish_connect_server s = Inr remote \<longrightarrow>
              handle_client h srv s = (fst (start_lobby h l), srv', Some (snd (start_lobby h l)))) \<and>
         (\<forall>remote2 lid2 n2 k2.
              lobby remote2 = Inr lid2 \<and> hashable lid2 = Inr k \<and>
              name remote2 = Inr n2 \<and> hashable n2 = Inr k2 \<longrightarrow>
              join h srv' remote2 =
                (Inr Waiting,
                 srv'\<lparr>building_lobbies := building_lobbies srv' @
                        [(k, \<lparr>lobby_id = lid2, members_dict = [(k2, remote2)]\<rparr>)]\<rparr>) \<or>
              join h srv' remote2 =
                (Inr (Starting \<lparr>lobby_id = lid2, members_dict = [(k2, remote2)]\<rparr>), srv'))"
proof -
  let ?l0 = "case map_of (building_lobbies srv) k of None \<Rightarrow> HijackLobby_init lid | Some l0 \<Rightarrow> l0"
  let ?table = "case map_of (building_lobbies srv) k of
                  None \<Rightarrow> building_lobbies srv @ [(k, HijackLobby_init lid)]
                | Some _ \<Rightarrow> building_lobbies srv"
  from assms have ok: "fst (add_remote ?l0 remote) = Inr ()"
    and l: "l = snd (add_remote ?l0 remote)"
    and srv': "srv' = srv\<lparr>building_lobbies := AList.delete k (AList.update k l ?table)\<rparr>"
    by (auto simp: join_def Let_def split: prod.splits sum.splits if_splits)
  have gone: "map_of (building_lobbies srv') k = None"
    by (simp add: srv' AList.delete_conv')
  then have notin: "k \<notin> fst ` set (building_lobbies srv')"
    by (simp add: map_of_eq_None_iff)
  have hc: "\<forall>s. finish_connect_server s = Inr remote \<longrightarrow>
              handle_client h srv s = (fst (start_lobby h l), srv', Some (snd (start_lobby h l)))"
    using assms(1) by (simp add: handle_client_def split: prod.splits)
  have later: "join h srv' remote2 =
                (Inr Waiting,
                 srv'\<lparr>building_lobbies := building_lobbies srv' @
                        [(k, \<lparr>lobby_id = lid2, members_dict = [(k2, remote2)]\<rparr>)]\<rparr>) \<or>
              join h srv' remote2 =
                (Inr (Starting \<lparr>lobby_id = lid2, members_dict = [(k2, remote2)]\<rparr>), srv')"
    if "lobby remote2 = Inr lid2" "hashable lid2 = Inr k" "name remote2 = Inr n2" "hashable n2 = Inr k2"
    for remote2 lid2 n2 k2
    using that gone notin
    by (simp add: join_def Let_def add_remote_def HijackLobby_init_def update_appended
                  delete_appended)
  from gone l hc later show ?thesis by blast
qed

lemma join_alice_bob:
  "join handler_ok \<lparr>building_lobbies = [(KStr ''t'',
       \<lparr>lobby_id = JStr ''t'', members_dict = [(KStr ''alice'', alice)]\<rparr>)]\<rparr> bob
   = (Inr (Starting lobby_t), server0)"
  by code_simp

lemma lobby_bob: "lobby bob = Inr (JStr ''t'')"
  by (simp add: lobby_def bob_def)

lemma name_carol: "name carol = Inr (JStr ''carol'')"
  by (simp add: name_def carol_def)

lemma lobby_carol: "lobby carol = Inr (JStr ''t'')"
  by (simp add: lobby_def carol_def)

lemma carol_waits: "fst (join handler_ok server0 carol) = Inr Waiting"
  by code_simp

lemma handshake_bob:
  "finish_connect_server (stream_of (dumps (metadata bob) @ [newline])) = Inr bob"
  by code_simp

theorem join_removes_lobby_witness:
  "join handler_ok \<lparr>building_lobbies = [(KStr ''t'',
       \<lparr>lobby_id = JStr ''t'', members_dict = [(KStr ''alice'', alice)]\<rparr>)]\<rparr> bob
     = (Inr (Starting lobby_t), server0) \<and>
   map_of (building_lobbies server0) (KStr ''t'') = None \<and>
   handle_client handler_ok \<lparr>building_lobbies = [(KStr ''t'',
       \<lparr>lobby_id = JStr ''t'', members_dict = [(KStr ''alice'', alice)]\<rparr>)]\<rparr>
       (stream_of (dumps (metadata bob) @ [newline]))
     = (fst (start_lobby handler_ok lobby_t), server0, Some (snd (start_lobby handler_ok lobby_t))) \<and>
   join handler_ok server0 carol =
     (Inr Waiting,
      \<lparr>building_lobbies =
          [(KStr ''t'', \<lparr>lobby_id = JStr ''t'', members_dict = [(KStr ''carol'', carol)]\<rparr>)]\<rparr>)"
proof -
  note j = join_removes_lobby [OF join_alice_bob lobby_bob, of "KStr ''t''"]
  from j have a: "map_of (building_lobbies server0) (KStr ''t'') = None" by simp
  from j handshake_bob
  have h: "handle_client handler_ok \<lparr>building_lobbies = [(KStr ''t'',
       \<lparr>lobby_id = JStr ''t'', members_dict = [(KStr ''alice'', alice)]\<rparr>)]\<rparr>
       (stream_of (dumps (metadata bob) @ [newline]))
     = (fst (start_lobby handler_ok lobby_t), server0, Some (snd (start_lobby handler_ok lobby_t)))"
    by simp
  from j name_carol lobby_carol
  have "join handler_ok server0 carol =
          (Inr Waiting,
           server0\<lparr>building_lobbies := building_lobbies server0 @
              [(KStr ''t'', \<lparr>lobby_id = JStr ''t'', members_dict = [(KStr ''carol'', carol)]\<rparr>)]\<rparr>) \<or>
        join handler_ok server0 carol =
          (Inr (Starting \<lparr>lobby_id = JStr ''t'', members_dict = [(KStr ''carol'', carol)]\<rparr>), server0)"
    by (metis hashable.simps(4))
  with carol_waits
  have b: "join handler_ok server0 carol =
          (Inr Waiting,
           server0\<lparr>building_lobbies := building_lobbies server0 @
              [(KStr ''t'', \<lparr>lobby_id = JStr ''t'', members_dict = [(KStr ''carol'', carol)]\<rparr>)]\<rparr>)"
    by auto
  show ?thesis using join_alice_bob a b h by (simp add: server0_def)
qed





section \<open>A completed lobby\<close>



text \<open>
  The lobbies of the table keep their invariant, and their members have been sent no
  roster: \<^verbatim>\<open>_handle_client\<close> keeps \<open>server_inv\<close>, which holds of the empty table.
\<close>

lemma lobby_inv_add_remote: "lobby_inv l \<Longrightarrow> lobby_inv (snd (add_remote l remote))"
  by (auto simp: lobby_inv_def add_remote_def update_fresh split: sum.splits)

lemma lobby_inv_init: "lobby_inv (HijackLobby_init lid)"
  by (simp add: lobby_inv_def HijackLobby_init_def)

lemma no_roster_add_remote:
  "no_roster_yet l \<Longrightarrow> starting_metadata remote = None \<Longrightarrow>
   no_roster_yet (snd (add_remote l remote))"
  by (auto simp: no_roster_yet_def add_remote_def update_fresh split: sum.splits)

lemma no_roster_init: "no_roster_yet (HijackLobby_init lid)"
  by (simp add: no_roster_yet_def HijackLobby_init_def)

lemma finish_connect_server_no_roster:
  "finish_connect_server s = Inr remote \<Longrightarrow> starting_metadata remote = None"
  by (auto simp: finish_connect_server_def read_message_def read_message_raw_def
                 HijackClient_init_def
           split: prod.splits sum.splits option.splits if_splits)

lemma list_all_update:
  "list_all P al \<Longrightarrow> P (k, v) \<Longrightarrow> list_all P (AList.update k v al)"
  by (induction al) auto

lemma list_all_delete: "list_all P al \<Longrightarrow> list_all P (AList.delete k al)"
  by (induction al) auto

lemma join_server_inv:
  assumes "server_inv srv" and "starting_metadata remote = None"
    and "join h srv remote = (r, srv')"
  shows "server_inv srv' \<and> (\<forall>l. r = Inr (Starting l) \<longrightarrow> lobby_inv l \<and> no_roster_yet l)"
proof (cases "lobby remote")
  case (Inl e)
  with assms show ?thesis by (auto simp: join_def)
next
  case (Inr lid)
  show ?thesis
  proof (cases "hashable lid")
    case (Inl e)
    with Inr assms show ?thesis by (auto simp: join_def)
  next
    case k: (Inr k)
    let ?P = "\<lambda>p :: pykey \<times> HijackLobby. lobby_inv (snd p) \<and> no_roster_yet (snd p)"
    let ?table = "case map_of (building_lobbies srv) k of
                    None \<Rightarrow> building_lobbies srv @ [(k, HijackLobby_init lid)]
                  | Some _ \<Rightarrow> building_lobbies srv"
    let ?l = "case map_of (building_lobbies srv) k of
                None \<Rightarrow> HijackLobby_init lid | Some l0 \<Rightarrow> l0"
    have all: "list_all ?P (building_lobbies srv)" using assms(1) by (simp add: server_inv_def)
    have table: "list_all ?P ?table"
      using all by (simp add: lobby_inv_init no_roster_init split: option.splits)
    have l: "lobby_inv ?l \<and> no_roster_yet ?l"
    proof (cases "map_of (building_lobbies srv) k")
      case None
      then show ?thesis by (simp add: lobby_inv_init no_roster_init)
    next
      case (Some l0)
      then have "(k, l0) \<in> set (building_lobbies srv)" by (rule map_of_SomeD)
      with all Some show ?thesis by (auto simp: list_all_iff)
    qed
    let ?l' = "snd (add_remote ?l remote)"
    have l': "lobby_inv ?l' \<and> no_roster_yet ?l'"
      using l assms(2) by (simp add: lobby_inv_add_remote no_roster_add_remote)
    have upd: "list_all ?P (AList.update k ?l' ?table)"
      using table l' by (intro list_all_update) simp_all
    have del: "list_all ?P (AList.delete k (AList.update k ?l' ?table))"
      using upd by (rule list_all_delete)
    from assms(3) Inr k
    have "(r = Inl (case fst (add_remote ?l remote) of Inl e \<Rightarrow> e) \<and>
             srv' = srv\<lparr>building_lobbies := ?table\<rparr>) \<or>
          (r = Inr Waiting \<and> srv' = srv\<lparr>building_lobbies := AList.update k ?l' ?table\<rparr>) \<or>
          (r = Inr (Starting ?l') \<and>
             srv' = srv\<lparr>building_lobbies := AList.delete k (AList.update k ?l' ?table)\<rparr>)"
      by (auto simp: join_def Let_def split: prod.splits sum.splits if_splits)
    then show ?thesis
      using table upd del l' by (auto simp: server_inv_def)
  qed
qed

lemma server_inv_empty: "server_inv \<lparr>building_lobbies = []\<rparr>"
  by (simp add: server_inv_def)

lemma handle_client_server_inv:
  assumes "server_inv srv" and "handle_client h srv s = (r, srv', ol)"
  shows "server_inv srv'"
proof (cases "finish_connect_server s")
  case (Inl e)
  with assms show ?thesis by (simp add: handle_client_def)
next
  case (Inr remote)
  obtain r0 srv0 where j: "join h srv remote = (r0, srv0)" by (cases "join h srv remote")
  from Inr have "starting_metadata remote = None" by (rule finish_connect_server_no_roster)
  with assms(1) j have "server_inv srv0" using join_server_inv by blast
  moreover from assms(2) Inr j have "srv' = srv0"
    by (auto simp: handle_client_def split: sum.splits joined.splits prod.splits)
  ultimately show ?thesis by simp
qed







section \<open>Messages\<close>





text \<open>
  C4, as stated, fails at its own example: a string that holds a line feed is sent, the
  line feed written as a backslash and the letter n.
\<close>

theorem send_message_newline_counterexample:
  "send_message alice (JStr [CHR ''a'', newline, CHR ''b'']) =
     (Inr (), alice\<lparr>stream := (stream alice)\<lparr>written :=
        [CHR 0x22, CHR ''a'', CHR 0x5C, CHR ''n'', CHR ''b'', CHR 0x22, newline]\<rparr>\<rparr>)"
  by code_simp

text \<open>
  C4, amended. The serialized text of a message never holds a line feed. On a live
  connection \<^verbatim>\<open>send_message\<close> succeeds and writes the serialized text and one line feed.
  \<^verbatim>\<open>_send_message_raw\<close> of a text that holds a line feed raises
  \<^verbatim>\<open>Exception("Message payload contained newline")\<close> and writes nothing.
\<close>

theorem send_message_writes_line:
  "newline \<notin> set (dumps msg) \<and>
   (\<not> closed (stream c) \<and> \<not> broken (stream c) \<longrightarrow>
      send_message c msg =
        (Inr (), c\<lparr>stream := (stream c)\<lparr>written := written (stream c) @ dumps msg @ [newline]\<rparr>\<rparr>)) \<and>
   (newline \<in> set plod \<longrightarrow>
      send_message_raw c plod = (Inl (PyException ''Message payload contained newline''), c))"
  by (simp add: send_message_def send_message_raw_def write_drain_def dumps_no_newline)

theorem send_message_writes_line_witness:
  "send_message alice (JInt 7) =
     (Inr (), alice\<lparr>stream := (stream alice)\<lparr>written := ''7'' @ [newline]\<rparr>\<rparr>) \<and>
   send_message_raw alice [CHR ''a'', newline]
     = (Inl (PyException ''Message payload contained newline''), alice)"
proof -
  have a: "\<not> closed (stream alice) \<and> \<not> broken (stream alice)" "written (stream alice) = []"
    by (simp_all add: alice_def)
  have d: "dumps (JInt 7) = ''7''" by code_simp
  have n: "newline \<in> set [CHR ''a'', newline]" by simp
  show ?thesis
    using send_message_writes_line [of "JInt 7" alice "[CHR ''a'', newline]"] a d n by simp
qed






end
